theory Spec2Isabelle
  imports Main
begin

section \<open>Paginated tag listing of docker/docker_image.go\<close>

text \<open>
  The theory embeds the two functions of \<^verbatim>\<open>docker/docker_image.go\<close> that list the
  tags of a repository: \<^verbatim>\<open>MakeRepositoryTagsRequest\<close>, one request and response, and
  \<^verbatim>\<open>GetRepositoryTags\<close>, the loop that follows the \<^verbatim>\<open>Link\<close> headers.
\<close>

subsection \<open>Values\<close>

text \<open>
  A Go \<^verbatim>\<open>[]string\<close> is a \<^typ>\<open>string list option\<close>: \<^term>\<open>None\<close> is the nil
  slice, \<^term>\<open>Some []\<close> an empty slice that is not nil. The source tests
  \<^verbatim>\<open>tags == nil\<close>, so the two are kept apart. A Go \<^verbatim>\<open>error\<close> is an
  \<^typ>\<open>'e option\<close> with \<^term>\<open>None\<close> for nil.
\<close>

type_synonym slice = "string list option"

text \<open>
  The errors the two functions return. Three of them pass on the error of a call into
  code outside the file (the registry client, the JSON decoder, the URL parser) as it
  is; the constructor records which call it came from and the argument is that call's
  own error. The other two are built by \<^verbatim>\<open>errors.Errorf\<close> in the file.
\<close>

datatype error =
    TransportError string
  | InvalidStatusCode int
  | DecodeError string
  | URLParseError string
  | LinkHeaderError

text \<open>The fields of \<^verbatim>\<open>http.Response\<close> and of \<^verbatim>\<open>url.URL\<close> that the file reads.\<close>

record response =
  StatusCode :: int
  Header :: "string \<rightharpoonup> string list"
  Body :: string

record URL =
  Path :: string
  RawQuery :: string

text \<open>
  What the file calls and does not define, taken as parameters:
  \<^item> \<open>makeRequest\<close> is \<^verbatim>\<open>i.src.c.makeRequest(ctx, "GET", path, nil, nil)\<close>. The
    registry is outside the program, so its answer may depend on the requests made
    before: the first argument is the list of the paths requested so far, oldest first,
    the second is the path of this request.
  \<^item> \<open>jsonDecode\<close> is \<^verbatim>\<open>json.NewDecoder(res.Body).Decode(tags)\<close> followed by the read
    of \<^verbatim>\<open>tags.Tags\<close>: the decoder's error, or the slice the \<^verbatim>\<open>Tags\<close> field holds
    after decoding (nil when the field is absent or null).
  \<^item> \<open>urlParse\<close> is \<^verbatim>\<open>url.Parse\<close>.
\<close>

record world =
  makeRequest :: "string list \<Rightarrow> string \<Rightarrow> string + response"
  jsonDecode :: "string \<Rightarrow> string + slice"
  urlParse :: "string \<Rightarrow> string + URL"

subsection \<open>One request\<close>

text \<open>
  \<^verbatim>\<open>MakeRepositoryTagsRequest(i, path)\<close> returns \<^verbatim>\<open>(tags, linkValue, err)\<close>. The
  model also returns the request log with \<open>path\<close> added, since the call always issues
  exactly one request. \<^verbatim>\<open>res.Header["Link"]\<close> of a header without that key is the
  nil slice; only its length and its first element are read, so \<open>linkValue\<close> is a
  list and nil is \<^term>\<open>[]\<close>.
\<close>

definition MakeRepositoryTagsRequest ::
  "world \<Rightarrow> string list \<Rightarrow> string \<Rightarrow> (slice \<times> string list \<times> error option) \<times> string list" where
  "MakeRepositoryTagsRequest i log path =
     ((case makeRequest i log path of
         Inl err \<Rightarrow> (None, [], Some (TransportError err))
       | Inr res \<Rightarrow>
           if StatusCode res \<noteq> 200
           then (None, [], Some (InvalidStatusCode (StatusCode res)))
           else (case jsonDecode i (Body res) of
                   Inl err \<Rightarrow> (None, [], Some (DecodeError err))
                 | Inr tags \<Rightarrow>
                     (tags, (case Header res ''Link'' of None \<Rightarrow> [] | Some vs \<Rightarrow> vs), None))),
      log @ [path])"

subsection \<open>The pattern of a continuation header\<close>

text \<open>
  \<^verbatim>\<open>regexp.MustCompile(`\A<(.+)>;(.+)\z`)\<close>: the whole string is \<^verbatim>\<open><\<close>, one or more
  characters, \<^verbatim>\<open>>;\<close>, one or more characters, where \<^verbatim>\<open>.\<close> is any character but a
  newline. Both groups are greedy, so when \<^verbatim>\<open>>;\<close> occurs more than once the first
  group runs up to the last occurrence that still leaves a character for the second.
  \<open>lastSplit\<close> finds that split in the text after the opening bracket.
\<close>

fun lastSplit :: "string \<Rightarrow> (string \<times> string) option" where
  "lastSplit [] = None"
| "lastSplit (x # xs) =
     (case lastSplit xs of
        Some (a, b) \<Rightarrow> Some (x # a, b)
      | None \<Rightarrow> if take 2 xs = ''>;'' \<and> drop 2 xs \<noteq> [] then Some ([x], drop 2 xs) else None)"

text \<open>
  \<^verbatim>\<open>nextLinkRegexp.FindStringSubmatch(s)\<close>, as far as the caller reads it: \<^term>\<open>None\<close>
  when the match is nil, else \<^verbatim>\<open>match[1]\<close>.
\<close>

definition nextLinkRegexp :: "string \<Rightarrow> string option" where
  "nextLinkRegexp s =
     (case s of
        [] \<Rightarrow> None
      | c # rest \<Rightarrow>
          if c = CHR ''<'' \<and> CHR 0x0A \<notin> set rest then map_option fst (lastSplit rest) else None)"

subsection \<open>The loop\<close>

text \<open>
  \<^verbatim>\<open>append(result, tags...)\<close> where \<open>tags\<close> is not nil: appending no element to the nil
  slice gives the nil slice back.
\<close>

fun append_slice :: "slice \<Rightarrow> string list \<Rightarrow> slice" where
  "append_slice None ts = (if ts = [] then None else Some ts)"
| "append_slice (Some rs) ts = Some (rs @ ts)"

text \<open>
  One pass through the body of \<^verbatim>\<open>for !done\<close>: it either leaves the function with
  the pair \<^verbatim>\<open>(tags, err)\<close> it returns, or goes round again with a new \<open>path\<close> and
  \<open>result\<close>. Setting \<^verbatim>\<open>done = true\<close> ends the loop, and the statement after the
  loop is \<^verbatim>\<open>return result, nil\<close>.
\<close>

datatype step = Return slice "error option" | Again string slice

definition iteration :: "world \<Rightarrow> string list \<Rightarrow> string \<Rightarrow> slice \<Rightarrow> step \<times> string list" where
  "iteration i log path result =
     (case MakeRepositoryTagsRequest i log path of
        ((tags, linkValue, err), log') \<Rightarrow>
          ((case tags of
              None \<Rightarrow> Return None err
            | Some ts \<Rightarrow>
                (case linkValue of
                   [] \<Rightarrow> Return (append_slice result ts) None
                 | l # _ \<Rightarrow>
                     (case nextLinkRegexp l of
                        Some m \<Rightarrow>
                          (case urlParse i m of
                             Inl uerr \<Rightarrow> Return None (Some (URLParseError uerr))
                           | Inr u \<Rightarrow> Again (Path u @ ''?'' @ RawQuery u) (append_slice result ts))
                      | None \<Rightarrow> Return None (Some LinkHeaderError)))),
           log'))"

text \<open>
  The loop may run for ever (a registry that always sends a continuation header), so it
  is a partial function: \<^term>\<open>None\<close> is a run that never returns, \<^term>\<open>Some\<close> holds
  the returned pair and the log of the requests made.
\<close>

partial_function (option) GetRepositoryTags_loop ::
  "world \<Rightarrow> string list \<Rightarrow> string \<Rightarrow> slice \<Rightarrow> ((slice \<times> error option) \<times> string list) option" where
  "GetRepositoryTags_loop i log path result =
     (case iteration i log path result of
        (Return tags err, log') \<Rightarrow> Some ((tags, err), log')
      | (Again path' result', log') \<Rightarrow> GetRepositoryTags_loop i log' path' result')"

text \<open>
  \<^verbatim>\<open>GetRepositoryTags\<close>. The first path is
  \<^verbatim>\<open>fmt.Sprintf(tagsPath, reference.Path(i.src.ref.ref))\<close>, whose format and
  reference are declared outside the file: it is the parameter \<open>path\<close>. \<open>result\<close>
  starts as the nil slice and no request has been made.
\<close>

definition GetRepositoryTags :: "world \<Rightarrow> string \<Rightarrow> ((slice \<times> error option) \<times> string list) option" where
  "GetRepositoryTags i path = GetRepositoryTags_loop i [] path None"

text \<open>
  The states the loop of \<open>GetRepositoryTags i path0\<close> passes through: \<open>reaches i path0
  log path result\<close> holds when the loop is at its head with the requests \<open>log\<close> made, about
  to request \<open>path\<close>, holding \<open>result\<close>.
\<close>

inductive reaches :: "world \<Rightarrow> string \<Rightarrow> string list \<Rightarrow> string \<Rightarrow> slice \<Rightarrow> bool" where
  start: "reaches i path0 [] path0 None"
| again: "reaches i path0 log path result \<Longrightarrow>
          iteration i log path result = (Again path' result', log') \<Longrightarrow>
          reaches i path0 log' path' result'"

subsection \<open>Notions the properties are stated with\<close>

text \<open>What one call of \<open>MakeRepositoryTagsRequest\<close> returns to the loop.\<close>

definition fetch :: "world \<Rightarrow> string list \<Rightarrow> string \<Rightarrow> slice \<times> string list \<times> error option" where
  "fetch i log path = fst (MakeRepositoryTagsRequest i log path)"

text \<open>
  \<open>returns_at i path0 y\<close>: the loop of \<open>GetRepositoryTags i path0\<close> reaches a state whose
  pass through the body leaves the function with \<open>y\<close> (the returned pair and the log).
\<close>

definition returns_at :: "world \<Rightarrow> string \<Rightarrow> (slice \<times> error option) \<times> string list \<Rightarrow> bool" where
  "returns_at i path0 y \<longleftrightarrow>
     (\<exists>log path result. reaches i path0 log path result \<and>
        iteration i log path result = (Return (fst (fst y)) (snd (fst y)), snd y))"

text \<open>
  A registry that serves the pages \<open>P1..Pk\<close>, each a pair of a tag sequence and the
  values of its \<^verbatim>\<open>Link\<close> header: the request for \<open>path\<close> after the requests \<open>log\<close> is
  answered by the first page, every page but the last carries a continuation header
  that matches the pattern and parses, the request for the path built from it is
  answered by the next page, and the last page carries no continuation header.
\<close>

fun serves :: "world \<Rightarrow> string list \<Rightarrow> string \<Rightarrow> (string list \<times> string list) list \<Rightarrow> bool" where
  "serves i log path [] = False"
| "serves i log path ((ts, ls) # ps) =
     (fetch i log path = (Some ts, ls, None) \<and>
      (if ps = [] then ls = []
       else (case ls of
               [] \<Rightarrow> False
             | l # _ \<Rightarrow>
                 (case nextLinkRegexp l of
                    None \<Rightarrow> False
                  | Some m \<Rightarrow>
                      (case urlParse i m of
                         Inl _ \<Rightarrow> False
                       | Inr u \<Rightarrow> serves i (log @ [path]) (Path u @ ''?'' @ RawQuery u) ps)))))"

text \<open>
  The same registry with every value of a \<^verbatim>\<open>Link\<close> header but the first removed from
  each response.
\<close>

definition firstLink :: "response \<Rightarrow> response" where
  "firstLink res = res\<lparr>Header := (Header res)(''Link'' := map_option (take 1) (Header res ''Link''))\<rparr>"

definition firstLinkOnly :: "world \<Rightarrow> world" where
  "firstLinkOnly i = i\<lparr>makeRequest := \<lambda>log path. map_sum id firstLink (makeRequest i log path)\<rparr>"

subsection \<open>Registries to run the functions on\<close>

text \<open>
  Stand-ins for the decoder and the URL parser on the inputs of the examples below
  (they agree with \<^verbatim>\<open>encoding/json\<close> and \<^verbatim>\<open>net/url\<close> there and are not models of
  them), and a registry that answers by a table from paths to responses, with status
  404 for any other path.
\<close>

definition decodeExample :: "string \<Rightarrow> string + slice" where
  \<open>decodeExample body =
     (case map_of
        [(''{"Tags":["a","b"]}'', Some [''a'', ''b'']),
         (''{"Tags":["a"]}'', Some [''a'']),
         (''{"Tags":["c"]}'', Some [''c'']),
         (''{"Tags":[]}'', Some []),
         (''{"Tags":null}'', None),
         (''{}'', None)] body of
        Some tags \<Rightarrow> Inr tags
      | None \<Rightarrow> Inl ''invalid character'')\<close>

definition parseExample :: "string \<Rightarrow> string + URL" where
  "parseExample s =
     (if take 1 s = '':'' then Inl ''missing protocol scheme''
      else Inr \<lparr>Path = takeWhile (\<lambda>c. c \<noteq> CHR ''?'') s,
                RawQuery = drop 1 (dropWhile (\<lambda>c. c \<noteq> CHR ''?'') s)\<rparr>)"

definition registry :: "(string \<times> (string + response)) list \<Rightarrow> world" where
  "registry table =
     \<lparr>makeRequest = (\<lambda>log path.
        case map_of table path of
          Some answer \<Rightarrow> answer
        | None \<Rightarrow> Inr \<lparr>StatusCode = 404, Header = Map.empty, Body = []\<rparr>),
      jsonDecode = decodeExample,
      urlParse = parseExample\<rparr>"

definition page :: "string \<Rightarrow> string list \<Rightarrow> string + response" where
  "page body links =
     Inr \<lparr>StatusCode = 200, Header = (if links = [] then Map.empty else [''Link'' \<mapsto> links]), Body = body\<rparr>"

text \<open>The two example scenarios of the specification.\<close>

definition twoPages :: world where
  \<open>twoPages = registry
     [(''/v2/r/tags/list'', page ''{"Tags":["a","b"]}'' [''</v2/r/tags/list?next=2>; rel="next"'']),
      (''/v2/r/tags/list?next=2'', page ''{"Tags":["c"]}'' [])]\<close>

definition malformedLink :: world where
  \<open>malformedLink = registry
     [(''/v2/r/tags/list'', page ''{"Tags":["a"]}'' [''malformed-value''])]\<close>

text \<open>
  A repository of three pages whose second page has a null \<^verbatim>\<open>Tags\<close> field and a
  continuation header to the third.
\<close>

definition nullSecondPage :: world where
  \<open>nullSecondPage = registry
     [(''/v2/r/tags/list'', page ''{"Tags":["a","b"]}'' [''</v2/r/tags/list?next=2>; rel="next"'']),
      (''/v2/r/tags/list?next=2'', page ''{"Tags":null}'' [''</v2/r/tags/list?next=3>; rel="next"'']),
      (''/v2/r/tags/list?next=3'', page ''{"Tags":["c"]}'' [])]\<close>

text \<open>A page without a \<^verbatim>\<open>Tags\<close> field whose continuation header is malformed.\<close>

definition nullMalformed :: world where
  \<open>nullMalformed = registry
     [(''/v2/r/tags/list'', page ''{}'' [''malformed-value''])]\<close>

text \<open>
  A registry with one path for each way a page can fail: no connection, a status that
  is not 200 (404, and the success codes 201 and 204), a body that is not JSON, a
  continuation header that does not match, one whose URL does not parse; and a first
  page that leads to the path answered with 404.
\<close>

definition faulty :: world where
  \<open>faulty = registry
     [(''/transport'', Inl ''connection refused''),
      (''/created'', Inr \<lparr>StatusCode = 201, Header = Map.empty, Body = ''{"Tags":["a"]}''\<rparr>),
      (''/nocontent'', Inr \<lparr>StatusCode = 204, Header = Map.empty, Body = []\<rparr>),
      (''/decode'', page ''<html>'' []),
      (''/link'', page ''{"Tags":["a"]}'' [''malformed-value'']),
      (''/url'', page ''{"Tags":["a"]}'' [''<:bad>; rel="next"'']),
      (''/first'', page ''{"Tags":["a","b"]}'' [''</gone?n=2>; rel="next"''])]\<close>

text \<open>A page with three values in its continuation header.\<close>

definition extraLinks :: world where
  \<open>extraLinks = registry
     [(''/v2/r/tags/list'',
         page ''{"Tags":["a","b"]}''
           [''</v2/r/tags/list?next=2>; rel="next"'', ''</v2/r/tags/list?next=9>; rel="next"'', ''junk'']),
      (''/v2/r/tags/list?next=2'', page ''{"Tags":["c"]}'' [])]\<close>

text \<open>
  A first page with tags, a second page with an empty tag array and a continuation
  header without a query, a third page with an empty tag array and no continuation.
\<close>

definition emptyPages :: world where
  \<open>emptyPages = registry
     [(''/v2/r/tags/list'', page ''{"Tags":["a"]}'' [''</v2/r/tags/more>; rel="next"'']),
      (''/v2/r/tags/more?'', page ''{"Tags":[]}'' [''</v2/r/tags/last>; rel="next"'']),
      (''/v2/r/tags/last?'', page ''{"Tags":[]}'' [])]\<close>

section \<open>Properties\<close>

lemma MakeRepositoryTagsRequest_log: "snd (MakeRepositoryTagsRequest i log path) = log @ [path]"
  by (simp add: MakeRepositoryTagsRequest_def)

lemma iteration_log: "snd (iteration i log path result) = log @ [path]"
  by (simp add: iteration_def MakeRepositoryTagsRequest_def split: prod.splits)

subsection \<open>The loop, one pass at a time\<close>

lemmas example_defs =
  registry_def page_def decodeExample_def parseExample_def nextLinkRegexp_def
  iteration_def MakeRepositoryTagsRequest_def fetch_def

lemma loop_Return:
  "iteration i log path result = (Return tags err, log') \<Longrightarrow>
   GetRepositoryTags_loop i log path result = Some ((tags, err), log')"
  by (subst GetRepositoryTags_loop.simps) simp

lemma loop_Again:
  "iteration i log path result = (Again path' result', log') \<Longrightarrow>
   GetRepositoryTags_loop i log path result = GetRepositoryTags_loop i log' path' result'"
  by (subst GetRepositoryTags_loop.simps) simp

lemma reaches_loop:
  "reaches i path0 log path result \<Longrightarrow>
   GetRepositoryTags i path0 = GetRepositoryTags_loop i log path result"
  by (induction rule: reaches.induct) (simp_all add: GetRepositoryTags_def loop_Again)

lemma reaches_Return:
  "reaches i path0 log path result \<Longrightarrow>
   iteration i log path result = (Return tags err, log') \<Longrightarrow>
   GetRepositoryTags i path0 = Some ((tags, err), log')"
  by (simp add: reaches_loop loop_Return)

lemma iteration_fetch:
  "iteration i log path result =
     (case fetch i log path of
        (tags, linkValue, err) \<Rightarrow>
          ((case tags of
              None \<Rightarrow> Return None err
            | Some ts \<Rightarrow>
                (case linkValue of
                   [] \<Rightarrow> Return (append_slice result ts) None
                 | l # _ \<Rightarrow>
                     (case nextLinkRegexp l of
                        Some m \<Rightarrow>
                          (case urlParse i m of
                             Inl uerr \<Rightarrow> Return None (Some (URLParseError uerr))
                           | Inr u \<Rightarrow> Again (Path u @ ''?'' @ RawQuery u) (append_slice result ts))
                      | None \<Rightarrow> Return None (Some LinkHeaderError)))),
           log @ [path]))"
  by (simp add: iteration_def fetch_def MakeRepositoryTagsRequest_def split: prod.splits)

lemma fetch_error_nil: "fetch i log path = (tags, links, Some e) \<Longrightarrow> tags = None \<and> links = []"
  by (auto simp: fetch_def MakeRepositoryTagsRequest_def split: sum.splits if_splits)

subsection \<open>Status codes\<close>

text \<open>
  C10. A response that arrived is a page only when its status code is exactly 200:
  with any other code, the success codes 201 and 204 among them,
  \<open>MakeRepositoryTagsRequest\<close> returns nil tags, no link value and the error that
  carries the code; with 200 it never returns that error.
\<close>

theorem only_200_is_success:
  assumes "makeRequest i log path = Inr res"
  shows "(StatusCode res \<noteq> 200 \<longrightarrow>
            MakeRepositoryTagsRequest i log path =
              ((None, [], Some (InvalidStatusCode (StatusCode res))), log @ [path])) \<and>
         (StatusCode res = 200 \<longrightarrow>
            (\<forall>code. snd (snd (fst (MakeRepositoryTagsRequest i log path))) \<noteq> Some (InvalidStatusCode code)))"
  using assms by (auto simp: MakeRepositoryTagsRequest_def split: sum.splits)

theorem only_200_is_success_witness:
  \<open>MakeRepositoryTagsRequest faulty [] ''/created'' = ((None, [], Some (InvalidStatusCode 201)), [''/created'']) \<and>
   MakeRepositoryTagsRequest faulty [] ''/nocontent'' = ((None, [], Some (InvalidStatusCode 204)), [''/nocontent'']) \<and>
   snd (snd (fst (MakeRepositoryTagsRequest faulty [] ''/link''))) \<noteq> Some (InvalidStatusCode 200)\<close>
proof -
  have a: \<open>makeRequest faulty [] ''/created'' =
      Inr \<lparr>StatusCode = 201, Header = Map.empty, Body = ''{"Tags":["a"]}''\<rparr>\<close>
    by (simp add: faulty_def registry_def)
  have b: "makeRequest faulty [] ''/nocontent'' = Inr \<lparr>StatusCode = 204, Header = Map.empty, Body = []\<rparr>"
    by (simp add: faulty_def registry_def)
  have c: \<open>makeRequest faulty [] ''/link'' =
      Inr \<lparr>StatusCode = 200, Header = [''Link'' \<mapsto> [''malformed-value'']], Body = ''{"Tags":["a"]}''\<rparr>\<close>
    by (simp add: faulty_def registry_def page_def)
  show ?thesis
    using only_200_is_success[OF a] only_200_is_success[OF b] only_200_is_success[OF c]
    by simp
qed

subsection \<open>A page without tags\<close>

lemma nullSecondPage_first:
  "iteration nullSecondPage [] ''/v2/r/tags/list'' None =
     (Again ''/v2/r/tags/list?next=2'' (Some [''a'', ''b'']), [''/v2/r/tags/list''])"
  by (simp add: nullSecondPage_def example_defs)

lemma nullSecondPage_reaches:
  "reaches nullSecondPage ''/v2/r/tags/list''
     [''/v2/r/tags/list''] ''/v2/r/tags/list?next=2'' (Some [''a'', ''b''])"
  using reaches.again[OF reaches.start nullSecondPage_first] .

text \<open>
  C3. When the loop fetches a page with status 200 whose body decodes without error
  to a nil \<^verbatim>\<open>Tags\<close> slice, \<open>GetRepositoryTags\<close> returns the nil slice and the nil
  error after that request: whatever \<open>result\<close> held is dropped, and the \<^verbatim>\<open>Link\<close>
  header of the page (any \<open>Header res\<close>) is not looked at.
\<close>

theorem nil_tags_return_nil_nil:
  assumes "reaches i path0 log path result"
      and "makeRequest i log path = Inr res"
      and "StatusCode res = 200"
      and "jsonDecode i (Body res) = Inr None"
  shows "GetRepositoryTags i path0 = Some ((None, None), log @ [path])"
proof -
  have "iteration i log path result = (Return None None, log @ [path])"
    using assms(2-4) by (simp add: iteration_def MakeRepositoryTagsRequest_def)
  with assms(1) show ?thesis by (rule reaches_Return)
qed

theorem nil_tags_return_nil_nil_witness:
  "GetRepositoryTags nullSecondPage ''/v2/r/tags/list'' =
     Some ((None, None), [''/v2/r/tags/list'', ''/v2/r/tags/list?next=2''])"
proof -
  have a: \<open>makeRequest nullSecondPage [''/v2/r/tags/list''] ''/v2/r/tags/list?next=2'' =
      Inr \<lparr>StatusCode = 200,
           Header = [''Link'' \<mapsto> [''</v2/r/tags/list?next=3>; rel="next"'']],
           Body = ''{"Tags":null}''\<rparr>\<close>
    by (simp add: nullSecondPage_def registry_def page_def)
  have b: \<open>jsonDecode nullSecondPage ''{"Tags":null}'' = Inr None\<close>
    by (simp add: nullSecondPage_def registry_def decodeExample_def)
  show ?thesis
    using nil_tags_return_nil_nil[OF nullSecondPage_reaches a] b by simp
qed

subsection \<open>Aggregation and failures\<close>

lemma append_slice_append:
  "append_slice (append_slice r a) b = append_slice r (a @ b)"
  by (cases r) auto

lemma serves_loop:
  "serves i log path pages \<Longrightarrow>
   \<exists>log'. GetRepositoryTags_loop i log path result =
            Some ((append_slice result (concat (map fst pages)), None), log') \<and>
          length log' = length log + length pages"
proof (induction i log path pages arbitrary: result rule: serves.induct)
  case (1 i log path)
  then show ?case by simp
next
  case (2 i log path ts ls ps)
  from "2.prems" have f: "fetch i log path = (Some ts, ls, None)" by simp
  show ?case
  proof (cases "ps = []")
    case True
    with "2.prems" have "ls = []" by simp
    with f have "iteration i log path result = (Return (append_slice result ts) None, log @ [path])"
      by (simp add: iteration_fetch)
    then have "GetRepositoryTags_loop i log path result = Some ((append_slice result ts, None), log @ [path])"
      by (rule loop_Return)
    with True show ?thesis by simp
  next
    case False
    with "2.prems" obtain l ls' m u where
      ls: "ls = l # ls'" and m: "nextLinkRegexp l = Some m" and u: "urlParse i m = Inr u"
      and s: "serves i (log @ [path]) (Path u @ ''?'' @ RawQuery u) ps"
      by (auto split: list.splits option.splits sum.splits)
    from f ls m u have
      "iteration i log path result =
         (Again (Path u @ ''?'' @ RawQuery u) (append_slice result ts), log @ [path])"
      by (simp add: iteration_fetch)
    then have step: "GetRepositoryTags_loop i log path result =
        GetRepositoryTags_loop i (log @ [path]) (Path u @ ''?'' @ RawQuery u) (append_slice result ts)"
      by (rule loop_Again)
    from "2.IH"[OF False ls m u s, of "append_slice result ts"] obtain log' where
      "GetRepositoryTags_loop i (log @ [path]) (Path u @ ''?'' @ RawQuery u) (append_slice result ts) =
         Some ((append_slice (append_slice result ts) (concat (map fst ps)), None), log')"
      "length log' = length (log @ [path]) + length ps"
      by blast
    with step show ?thesis by (simp add: append_slice_append)
  qed
qed

text \<open>
  C1. When the registry serves the pages \<open>P1..Pk\<close> (\<open>serves\<close>: every page has status
  200 and a body that decodes to a tag array, every page but the last carries a
  continuation header leading to the next, the last carries none),
  \<open>GetRepositoryTags\<close> returns the concatenation of the pages' tags in page order with
  the nil error, after exactly \<open>k\<close> requests. For one page with tags \<open>ts\<close> and no
  continuation header it returns \<open>ts\<close> after the one request for \<open>path\<close>. (A Go
  slice that no element was ever appended to is nil: \<open>append_slice None []\<close>.)
\<close>

theorem pages_are_concatenated:
  "(serves i [] path pages \<longrightarrow>
      (\<exists>log. GetRepositoryTags i path =
               Some ((append_slice None (concat (map fst pages)), None), log) \<and>
             length log = length pages)) \<and>
   (fetch i [] path = (Some ts, [], None) \<longrightarrow>
      GetRepositoryTags i path = Some ((append_slice None ts, None), [path]))"
proof (intro conjI impI)
  assume "serves i [] path pages"
  from serves_loop[OF this, of None]
  show "\<exists>log. GetRepositoryTags i path =
               Some ((append_slice None (concat (map fst pages)), None), log) \<and>
             length log = length pages"
    by (simp add: GetRepositoryTags_def)
next
  assume "fetch i [] path = (Some ts, [], None)"
  then have "iteration i [] path None = (Return (append_slice None ts) None, [path])"
    by (simp add: iteration_fetch)
  from reaches_Return[OF reaches.start this]
  show "GetRepositoryTags i path = Some ((append_slice None ts, None), [path])" .
qed

theorem pages_are_concatenated_witness:
  \<open>(\<exists>log. GetRepositoryTags twoPages ''/v2/r/tags/list'' = Some ((Some [''a'', ''b'', ''c''], None), log) \<and>
      length log = 2) \<and>
   GetRepositoryTags twoPages ''/v2/r/tags/list?next=2'' =
     Some ((Some [''c''], None), [''/v2/r/tags/list?next=2''])\<close>
proof -
  have a: \<open>serves twoPages [] ''/v2/r/tags/list''
      [([''a'', ''b''], [''</v2/r/tags/list?next=2>; rel="next"'']), ([''c''], [])]\<close>
    by (simp add: twoPages_def example_defs)
  have b: \<open>fetch twoPages [] ''/v2/r/tags/list?next=2'' = (Some [''c''], [], None)\<close>
    by (simp add: twoPages_def example_defs)
  show ?thesis
    using pages_are_concatenated[of twoPages "''/v2/r/tags/list''"
        \<open>[([''a'', ''b''], [''</v2/r/tags/list?next=2>; rel="next"'']), ([''c''], [])]\<close> "[''c'']"]
      pages_are_concatenated[of twoPages "''/v2/r/tags/list?next=2''" "[]" "[''c'']"] a b
    by (simp add: numeral_2_eq_2)
qed


lemma loop_returns_from:
  assumes "GetRepositoryTags_loop i log path result = Some y"
  shows "\<forall>path0. reaches i path0 log path result \<longrightarrow> returns_at i path0 y"
proof (rule GetRepositoryTags_loop.raw_induct
    [where P = "\<lambda>i log path result y. \<forall>path0. reaches i path0 log path result \<longrightarrow> returns_at i path0 y",
     OF _ assms])
  fix loop i log path result y
  assume IH: "\<And>i log path result y. loop i log path result = Some y \<Longrightarrow>
      \<forall>path0. reaches i path0 log path result \<longrightarrow> returns_at i path0 y"
  assume eq: "(case iteration i log path result of
        (Return tags err, log') \<Rightarrow> Some ((tags, err), log')
      | (Again path' result', log') \<Rightarrow> loop i log' path' result') = Some y"
  show "\<forall>path0. reaches i path0 log path result \<longrightarrow> returns_at i path0 y"
  proof (intro allI impI)
    fix path0
    assume r: "reaches i path0 log path result"
    obtain s log' where it: "iteration i log path result = (s, log')"
      by (cases "iteration i log path result")
    show "returns_at i path0 y"
    proof (cases s)
      case (Return tags err)
      with it eq have "y = ((tags, err), log')" by simp
      with it Return r show ?thesis unfolding returns_at_def by auto
    next
      case (Again path' result')
      with it eq have "loop i log' path' result' = Some y" by simp
      moreover from it Again r have "reaches i path0 log' path' result'"
        by (auto intro: reaches.again)
      ultimately show ?thesis using IH by blast
    qed
  qed
qed

lemma GetRepositoryTags_returns_at:
  "GetRepositoryTags i path0 = Some y \<Longrightarrow> returns_at i path0 y"
  using loop_returns_from[of i "[]" path0 None y] reaches.start[of i path0]
  by (simp add: GetRepositoryTags_def)

lemma iteration_error_nil:
  "iteration i log path result = (Return r (Some e), log') \<Longrightarrow> r = None"
  by (auto simp: iteration_fetch split: prod.splits option.splits list.splits sum.splits)

text \<open>
  C4. Whenever \<open>GetRepositoryTags\<close> returns an error that is not nil, the tag slice it
  returns is nil. And each of the five errors ends the operation at the request where
  it arises, with that error and the nil slice, whatever \<open>result\<close> held: an error of
  the transport, a status that is not 200, a body that does not decode and, on a page
  whose tags are not nil (the loop reads the header of no other page), a continuation
  header whose first value does not match the pattern, and a continuation URL that
  does not parse.
\<close>

theorem errors_are_fatal:
  "(GetRepositoryTags i path0 = Some ((r, Some e), log') \<longrightarrow> r = None) \<and>
   (reaches i path0 log path result \<longrightarrow>
      (makeRequest i log path = Inl terr \<longrightarrow>
         GetRepositoryTags i path0 = Some ((None, Some (TransportError terr)), log @ [path])) \<and>
      (makeRequest i log path = Inr res \<and> StatusCode res \<noteq> 200 \<longrightarrow>
         GetRepositoryTags i path0 = Some ((None, Some (InvalidStatusCode (StatusCode res))), log @ [path])) \<and>
      (makeRequest i log path = Inr res \<and> StatusCode res = 200 \<and> jsonDecode i (Body res) = Inl derr \<longrightarrow>
         GetRepositoryTags i path0 = Some ((None, Some (DecodeError derr)), log @ [path])) \<and>
      (fetch i log path = (Some ts, l # ls, None) \<and> nextLinkRegexp l = None \<longrightarrow>
         GetRepositoryTags i path0 = Some ((None, Some LinkHeaderError), log @ [path])) \<and>
      (fetch i log path = (Some ts, l # ls, None) \<and> nextLinkRegexp l = Some m \<and> urlParse i m = Inl uerr \<longrightarrow>
         GetRepositoryTags i path0 = Some ((None, Some (URLParseError uerr)), log @ [path])))"
proof (intro conjI impI)
  assume "GetRepositoryTags i path0 = Some ((r, Some e), log')"
  then have "returns_at i path0 ((r, Some e), log')" by (rule GetRepositoryTags_returns_at)
  then show "r = None" by (auto simp: returns_at_def dest: iteration_error_nil)
next
  assume r: "reaches i path0 log path result" and "makeRequest i log path = Inl terr"
  then have "iteration i log path result = (Return None (Some (TransportError terr)), log @ [path])"
    by (simp add: iteration_def MakeRepositoryTagsRequest_def)
  with r show "GetRepositoryTags i path0 = Some ((None, Some (TransportError terr)), log @ [path])"
    by (rule reaches_Return)
next
  assume r: "reaches i path0 log path result"
    and "makeRequest i log path = Inr res \<and> StatusCode res \<noteq> 200"
  then have "iteration i log path result =
      (Return None (Some (InvalidStatusCode (StatusCode res))), log @ [path])"
    by (simp add: iteration_def MakeRepositoryTagsRequest_def)
  with r show "GetRepositoryTags i path0 =
      Some ((None, Some (InvalidStatusCode (StatusCode res))), log @ [path])"
    by (rule reaches_Return)
next
  assume r: "reaches i path0 log path result"
    and "makeRequest i log path = Inr res \<and> StatusCode res = 200 \<and> jsonDecode i (Body res) = Inl derr"
  then have "iteration i log path result = (Return None (Some (DecodeError derr)), log @ [path])"
    by (simp add: iteration_def MakeRepositoryTagsRequest_def)
  with r show "GetRepositoryTags i path0 = Some ((None, Some (DecodeError derr)), log @ [path])"
    by (rule reaches_Return)
next
  assume r: "reaches i path0 log path result"
    and "fetch i log path = (Some ts, l # ls, None) \<and> nextLinkRegexp l = None"
  then have "iteration i log path result = (Return None (Some LinkHeaderError), log @ [path])"
    by (simp add: iteration_fetch)
  with r show "GetRepositoryTags i path0 = Some ((None, Some LinkHeaderError), log @ [path])"
    by (rule reaches_Return)
next
  assume r: "reaches i path0 log path result"
    and "fetch i log path = (Some ts, l # ls, None) \<and> nextLinkRegexp l = Some m \<and> urlParse i m = Inl uerr"
  then have "iteration i log path result = (Return None (Some (URLParseError uerr)), log @ [path])"
    by (simp add: iteration_fetch)
  with r show "GetRepositoryTags i path0 = Some ((None, Some (URLParseError uerr)), log @ [path])"
    by (rule reaches_Return)
qed


lemma faulty_first:
  "iteration faulty [] ''/first'' None = (Again ''/gone?n=2'' (Some [''a'', ''b'']), [''/first''])"
  by (simp add: faulty_def example_defs)

lemma faulty_reaches: "reaches faulty ''/first'' [''/first''] ''/gone?n=2'' (Some [''a'', ''b''])"
  using reaches.again[OF reaches.start faulty_first] .

theorem errors_are_fatal_witness:
  \<open>GetRepositoryTags faulty ''/transport'' =
     Some ((None, Some (TransportError ''connection refused'')), [''/transport'']) \<and>
   GetRepositoryTags faulty ''/first'' =
     Some ((None, Some (InvalidStatusCode 404)), [''/first'', ''/gone?n=2'']) \<and>
   GetRepositoryTags faulty ''/decode'' =
     Some ((None, Some (DecodeError ''invalid character'')), [''/decode'']) \<and>
   GetRepositoryTags malformedLink ''/v2/r/tags/list'' =
     Some ((None, Some LinkHeaderError), [''/v2/r/tags/list'']) \<and>
   GetRepositoryTags faulty ''/url'' =
     Some ((None, Some (URLParseError ''missing protocol scheme'')), [''/url''])\<close>
proof -
  have t: "makeRequest faulty [] ''/transport'' = Inl ''connection refused''"
    by (simp add: faulty_def registry_def)
  have s: "makeRequest faulty [''/first''] ''/gone?n=2'' =
      Inr \<lparr>StatusCode = 404, Header = Map.empty, Body = []\<rparr>"
    by (simp add: faulty_def registry_def)
  have d: "makeRequest faulty [] ''/decode'' =
      Inr \<lparr>StatusCode = 200, Header = Map.empty, Body = ''<html>''\<rparr>"
    "jsonDecode faulty ''<html>'' = Inl ''invalid character''"
    by (simp_all add: faulty_def registry_def page_def decodeExample_def)
  have l: "fetch malformedLink [] ''/v2/r/tags/list'' = (Some [''a''], [''malformed-value''], None)"
    "nextLinkRegexp ''malformed-value'' = None"
    by (simp_all add: malformedLink_def example_defs)
  have u: \<open>fetch faulty [] ''/url'' = (Some [''a''], [''<:bad>; rel="next"''], None)\<close>
    \<open>nextLinkRegexp ''<:bad>; rel="next"'' = Some '':bad''\<close>
    "urlParse faulty '':bad'' = Inl ''missing protocol scheme''"
    by (simp_all add: faulty_def example_defs)
  note start = reaches.start[of faulty]
  show ?thesis
    using errors_are_fatal[of faulty "''/transport''" _ _ _ "[]" "''/transport''" None "''connection refused''"]
      errors_are_fatal[of faulty "''/first''" _ _ _ "[''/first'']" "''/gone?n=2''" "Some [''a'', ''b'']" _
        "\<lparr>StatusCode = 404, Header = Map.empty, Body = []\<rparr>"]
      errors_are_fatal[of faulty "''/decode''" _ _ _ "[]" "''/decode''" None _
        "\<lparr>StatusCode = 200, Header = Map.empty, Body = ''<html>''\<rparr>" "''invalid character''"]
      errors_are_fatal[of malformedLink "''/v2/r/tags/list''" _ _ _ "[]" "''/v2/r/tags/list''" None _ _ _
        "[''a'']" "''malformed-value''" "[]"]
      errors_are_fatal[of faulty "''/url''" _ _ _ "[]" "''/url''" None _ _ _ "[''a'']"
        \<open>''<:bad>; rel="next"''\<close> "[]" "'':bad''" "''missing protocol scheme''"]
      t s d l u start reaches.start[of malformedLink] faulty_reaches
    by simp
qed

text \<open>
  C6. When a request of the loop, after any number of pages, is answered with a status
  code that is not 200, \<open>GetRepositoryTags\<close> returns at that request the nil slice and
  the status error carrying the code; and the body is not decoded: the request
  returns the same with any decoder in place of \<open>jsonDecode\<close>.
\<close>

theorem status_error_aborts:
  assumes "reaches i path0 log path result"
      and "makeRequest i log path = Inr res"
      and "StatusCode res \<noteq> 200"
  shows "GetRepositoryTags i path0 =
           Some ((None, Some (InvalidStatusCode (StatusCode res))), log @ [path]) \<and>
         (\<forall>decode. MakeRepositoryTagsRequest (i\<lparr>jsonDecode := decode\<rparr>) log path =
                    MakeRepositoryTagsRequest i log path)"
proof
  from assms(2,3) have "iteration i log path result =
      (Return None (Some (InvalidStatusCode (StatusCode res))), log @ [path])"
    by (simp add: iteration_def MakeRepositoryTagsRequest_def)
  with assms(1) show "GetRepositoryTags i path0 =
      Some ((None, Some (InvalidStatusCode (StatusCode res))), log @ [path])"
    by (rule reaches_Return)
next
  from assms(2,3)
  show "\<forall>decode. MakeRepositoryTagsRequest (i\<lparr>jsonDecode := decode\<rparr>) log path =
                  MakeRepositoryTagsRequest i log path"
    by (simp add: MakeRepositoryTagsRequest_def)
qed

theorem status_error_aborts_witness:
  "GetRepositoryTags faulty ''/first'' =
     Some ((None, Some (InvalidStatusCode 404)), [''/first'', ''/gone?n=2'']) \<and>
   (\<forall>decode. MakeRepositoryTagsRequest (faulty\<lparr>jsonDecode := decode\<rparr>) [''/first''] ''/gone?n=2'' =
              MakeRepositoryTagsRequest faulty [''/first''] ''/gone?n=2'')"
proof -
  have s: "makeRequest faulty [''/first''] ''/gone?n=2'' =
      Inr \<lparr>StatusCode = 404, Header = Map.empty, Body = []\<rparr>"
    by (simp add: faulty_def registry_def)
  show ?thesis
    using status_error_aborts[OF faulty_reaches s] by simp
qed

subsection \<open>The pattern\<close>

text \<open>
  \<open>nextLinkRegexp\<close> is the pattern: it matches exactly the strings that are \<^verbatim>\<open><\<close>, a
  non-empty \<open>a\<close>, \<^verbatim>\<open>>;\<close>, a non-empty \<open>b\<close>, without a newline, and the first group
  of the match is the longest such \<open>a\<close>.
\<close>

lemma lastSplit_sound:
  "lastSplit xs = Some (a, b) \<Longrightarrow> xs = a @ ''>;'' @ b \<and> a \<noteq> [] \<and> b \<noteq> []"
proof (induction xs arbitrary: a b)
  case Nil
  then show ?case by simp
next
  case (Cons x xs)
  show ?case
  proof (cases "lastSplit xs")
    case None
    with Cons.prems have c: "take 2 xs = ''>;''" "drop 2 xs \<noteq> []" "a = [x]" "b = drop 2 xs"
      by (auto split: if_splits)
    have "xs = take 2 xs @ drop 2 xs" by simp
    with c show ?thesis by simp
  next
    case (Some p)
    obtain a' b' where p: "p = (a', b')" by (cases p)
    with Some Cons.prems have "a = x # a'" "b = b'" by auto
    with Cons.IH[of a' b'] Some p show ?thesis by simp
  qed
qed

lemma lastSplit_longest:
  "a \<noteq> [] \<Longrightarrow> b \<noteq> [] \<Longrightarrow>
   \<exists>a' b'. lastSplit (a @ ''>;'' @ b) = Some (a', b') \<and> length a \<le> length a'"
proof (induction a)
  case Nil
  then show ?case by simp
next
  case (Cons x a)
  show ?case
  proof (cases "a = []")
    case True
    then show ?thesis using Cons.prems by (auto split: option.splits)
  next
    case False
    from Cons.IH[OF False Cons.prems(2)] obtain a' b' where
      "lastSplit (a @ ''>;'' @ b) = Some (a', b')" "length a \<le> length a'" by blast
    then show ?thesis by simp
  qed
qed

lemma nextLinkRegexp_None_iff:
  "nextLinkRegexp s = None \<longleftrightarrow>
     \<not> (\<exists>a b. s = ''<'' @ a @ ''>;'' @ b \<and> a \<noteq> [] \<and> b \<noteq> [] \<and> CHR 0x0A \<notin> set s)"
proof (cases s)
  case Nil
  then show ?thesis by (simp add: nextLinkRegexp_def)
next
  case (Cons c rest)
  show ?thesis
  proof (cases "c = CHR ''<'' \<and> CHR 0x0A \<notin> set rest")
    case False
    with Cons show ?thesis by (auto simp: nextLinkRegexp_def)
  next
    case True
    show ?thesis
    proof (cases "lastSplit rest")
      case None
      have "\<not> (\<exists>a b. rest = a @ ''>;'' @ b \<and> a \<noteq> [] \<and> b \<noteq> [])"
      proof
        assume "\<exists>a b. rest = a @ ''>;'' @ b \<and> a \<noteq> [] \<and> b \<noteq> []"
        then obtain a b where "rest = a @ ''>;'' @ b" "a \<noteq> []" "b \<noteq> []" by blast
        with lastSplit_longest[of a b] None show False by auto
      qed
      with Cons True None show ?thesis by (auto simp: nextLinkRegexp_def)
    next
      case (Some p)
      obtain a b where "p = (a, b)" by (cases p)
      with Some lastSplit_sound[of rest a b]
      have "rest = a @ ''>;'' @ b \<and> a \<noteq> [] \<and> b \<noteq> []" by simp
      with Cons True Some show ?thesis by (auto simp: nextLinkRegexp_def)
    qed
  qed
qed

lemma nextLinkRegexp_Some:
  assumes "nextLinkRegexp s = Some m"
  shows "\<exists>b. s = ''<'' @ m @ ''>;'' @ b \<and> m \<noteq> [] \<and> b \<noteq> [] \<and> CHR 0x0A \<notin> set s \<and>
           (\<forall>a' b'. s = ''<'' @ a' @ ''>;'' @ b' \<and> a' \<noteq> [] \<and> b' \<noteq> [] \<longrightarrow> length a' \<le> length m)"
proof -
  from assms obtain rest b where s: "s = CHR ''<'' # rest" and n: "CHR 0x0A \<notin> set rest"
    and l: "lastSplit rest = Some (m, b)"
    by (auto simp: nextLinkRegexp_def split: list.splits if_splits)
  from lastSplit_sound[OF l] have r: "rest = m @ ''>;'' @ b" "m \<noteq> []" "b \<noteq> []" by simp_all
  have "length a' \<le> length m" if "s = ''<'' @ a' @ ''>;'' @ b'" "a' \<noteq> []" "b' \<noteq> []" for a' b'
  proof -
    from that(1) s have "rest = a' @ ''>;'' @ b'" by simp
    with lastSplit_longest[OF that(2,3)] l show ?thesis by auto
  qed
  with s n r show ?thesis by auto
qed

subsection \<open>Continuation\<close>

lemma reaches_snoc:
  assumes "reaches i path0 (log @ [path]) path' result'"
  shows "\<exists>result. reaches i path0 log path result \<and>
           iteration i log path result = (Again path' result', log @ [path])"
  using assms
proof (cases rule: reaches.cases)
  case start
  then show ?thesis by simp
next
  case (again log1 path1 result1)
  from again(2) have "snd (iteration i log1 path1 result1) = log @ [path]" by simp
  then have "log1 = log" "path1 = path" by (simp_all add: iteration_log)
  with again show ?thesis by auto
qed

text \<open>
  C7. When the first value of a page's continuation header matches the pattern with
  \<open>m\<close> between the brackets and \<open>m\<close> parses to the URL \<open>u\<close>, any request the loop makes
  next has the path \<open>Path u\<close>, \<open>?\<close>, \<open>RawQuery u\<close>, with the question mark also when
  the query is empty; and when the page's tags are not nil the loop does go on to that
  request. In the example of the specification the second path is
  \<^verbatim>\<open>/v2/r/tags/list?next=2\<close>.
\<close>

theorem next_request_path:
  assumes "reaches i path0 log path result"
      and "fetch i log path = (tags, l # ls, err)"
      and "nextLinkRegexp l = Some m"
      and "urlParse i m = Inr u"
  shows "(\<forall>path' result'. reaches i path0 (log @ [path]) path' result' \<longrightarrow>
            path' = Path u @ ''?'' @ RawQuery u) \<and>
         (\<forall>ts. tags = Some ts \<longrightarrow>
            reaches i path0 (log @ [path]) (Path u @ ''?'' @ RawQuery u) (append_slice result ts) \<and>
            GetRepositoryTags i path0 =
              GetRepositoryTags_loop i (log @ [path]) (Path u @ ''?'' @ RawQuery u) (append_slice result ts))"
proof (intro conjI allI impI)
  fix path' result'
  assume "reaches i path0 (log @ [path]) path' result'"
  then obtain result1 where "iteration i log path result1 = (Again path' result', log @ [path])"
    using reaches_snoc by blast
  with assms(2-4) show "path' = Path u @ ''?'' @ RawQuery u"
    by (cases tags) (simp_all add: iteration_fetch)
next
  fix ts
  assume "tags = Some ts"
  with assms(2-4) have "iteration i log path result =
      (Again (Path u @ ''?'' @ RawQuery u) (append_slice result ts), log @ [path])"
    by (simp add: iteration_fetch)
  from reaches.again[OF assms(1) this]
  show r: "reaches i path0 (log @ [path]) (Path u @ ''?'' @ RawQuery u) (append_slice result ts)" .
  then show "GetRepositoryTags i path0 =
      GetRepositoryTags_loop i (log @ [path]) (Path u @ ''?'' @ RawQuery u) (append_slice result ts)"
    by (rule reaches_loop)
qed

theorem next_request_path_witness:
  \<open>reaches twoPages ''/v2/r/tags/list'' [''/v2/r/tags/list''] ''/v2/r/tags/list?next=2'' (Some [''a'', ''b'']) \<and>
   GetRepositoryTags twoPages ''/v2/r/tags/list'' =
     Some ((Some [''a'', ''b'', ''c''], None), [''/v2/r/tags/list'', ''/v2/r/tags/list?next=2'']) \<and>
   reaches emptyPages ''/v2/r/tags/list'' [''/v2/r/tags/list''] ''/v2/r/tags/more?'' (Some [''a''])\<close>
proof -
  have a: \<open>fetch twoPages [] ''/v2/r/tags/list'' =
      (Some [''a'', ''b''], [''</v2/r/tags/list?next=2>; rel="next"''], None)\<close>
    \<open>nextLinkRegexp ''</v2/r/tags/list?next=2>; rel="next"'' = Some ''/v2/r/tags/list?next=2''\<close>
    "urlParse twoPages ''/v2/r/tags/list?next=2'' = Inr \<lparr>Path = ''/v2/r/tags/list'', RawQuery = ''next=2''\<rparr>"
    by (simp_all add: twoPages_def example_defs)
  have b: \<open>fetch emptyPages [] ''/v2/r/tags/list'' =
      (Some [''a''], [''</v2/r/tags/more>; rel="next"''], None)\<close>
    \<open>nextLinkRegexp ''</v2/r/tags/more>; rel="next"'' = Some ''/v2/r/tags/more''\<close>
    "urlParse emptyPages ''/v2/r/tags/more'' = Inr \<lparr>Path = ''/v2/r/tags/more'', RawQuery = []\<rparr>"
    by (simp_all add: emptyPages_def example_defs)
  have c: "iteration twoPages [''/v2/r/tags/list''] ''/v2/r/tags/list?next=2'' (Some [''a'', ''b'']) =
      (Return (Some [''a'', ''b'', ''c'']) None, [''/v2/r/tags/list'', ''/v2/r/tags/list?next=2''])"
    by (simp add: twoPages_def example_defs)
  show ?thesis
    using next_request_path[OF reaches.start a] next_request_path[OF reaches.start b]
    by (simp add: loop_Return[OF c])
qed

text \<open>
  C9. A page whose body decodes to an empty tag array that is not nil adds nothing to
  \<open>result\<close> and is no failure: without a continuation header the loop returns
  \<open>result\<close> as it was with the nil error, and with a continuation header that
  matches and parses it goes on to the next path with \<open>result\<close> as it was.
\<close>

theorem empty_page_is_valid:
  assumes "reaches i path0 log path result"
      and "fetch i log path = (Some [], links, None)"
  shows "(links = [] \<longrightarrow> GetRepositoryTags i path0 = Some ((result, None), log @ [path])) \<and>
         (\<forall>l ls m u. links = l # ls \<and> nextLinkRegexp l = Some m \<and> urlParse i m = Inr u \<longrightarrow>
            reaches i path0 (log @ [path]) (Path u @ ''?'' @ RawQuery u) result \<and>
            GetRepositoryTags i path0 =
              GetRepositoryTags_loop i (log @ [path]) (Path u @ ''?'' @ RawQuery u) result)"
proof (intro conjI allI impI)
  have e: "append_slice result [] = result" by (cases result) simp_all
  {
    assume "links = []"
    with assms(2) have "iteration i log path result = (Return result None, log @ [path])"
      by (simp add: iteration_fetch e)
    with assms(1) show "GetRepositoryTags i path0 = Some ((result, None), log @ [path])"
      by (rule reaches_Return)
  }
  fix l ls m u
  assume "links = l # ls \<and> nextLinkRegexp l = Some m \<and> urlParse i m = Inr u"
  with assms(2) have "iteration i log path result =
      (Again (Path u @ ''?'' @ RawQuery u) result, log @ [path])"
    by (simp add: iteration_fetch e)
  from reaches.again[OF assms(1) this]
  show r: "reaches i path0 (log @ [path]) (Path u @ ''?'' @ RawQuery u) result" .
  then show "GetRepositoryTags i path0 =
      GetRepositoryTags_loop i (log @ [path]) (Path u @ ''?'' @ RawQuery u) result"
    by (rule reaches_loop)
qed

lemma emptyPages_first:
  "iteration emptyPages [] ''/v2/r/tags/list'' None =
     (Again ''/v2/r/tags/more?'' (Some [''a'']), [''/v2/r/tags/list''])"
  by (simp add: emptyPages_def example_defs)

lemma emptyPages_reaches:
  "reaches emptyPages ''/v2/r/tags/list'' [''/v2/r/tags/list''] ''/v2/r/tags/more?'' (Some [''a''])"
  using reaches.again[OF reaches.start emptyPages_first] .

theorem empty_page_is_valid_witness:
  \<open>reaches emptyPages ''/v2/r/tags/list''
     [''/v2/r/tags/list'', ''/v2/r/tags/more?''] ''/v2/r/tags/last?'' (Some [''a'']) \<and>
   GetRepositoryTags emptyPages ''/v2/r/tags/list'' =
     Some ((Some [''a''], None), [''/v2/r/tags/list'', ''/v2/r/tags/more?'', ''/v2/r/tags/last?''])\<close>
proof -
  have a: \<open>fetch emptyPages [''/v2/r/tags/list''] ''/v2/r/tags/more?'' =
      (Some [], [''</v2/r/tags/last>; rel="next"''], None)\<close>
    by (simp add: emptyPages_def example_defs)
  have m: \<open>nextLinkRegexp ''</v2/r/tags/last>; rel="next"'' = Some ''/v2/r/tags/last''\<close>
    "urlParse emptyPages ''/v2/r/tags/last'' = Inr \<lparr>Path = ''/v2/r/tags/last'', RawQuery = []\<rparr>"
    by (simp_all add: emptyPages_def example_defs)
  from empty_page_is_valid[OF emptyPages_reaches a] m
  have r: "reaches emptyPages ''/v2/r/tags/list''
     [''/v2/r/tags/list'', ''/v2/r/tags/more?''] ''/v2/r/tags/last?'' (Some [''a''])"
    by simp
  have b: "fetch emptyPages [''/v2/r/tags/list'', ''/v2/r/tags/more?''] ''/v2/r/tags/last?'' =
      (Some [], [], None)"
    by (simp add: emptyPages_def example_defs)
  from empty_page_is_valid[OF r b] r show ?thesis by simp
qed

subsection \<open>Values of the header after the first\<close>

lemma fetch_firstLinkOnly:
  "fetch (firstLinkOnly i) log path =
     (case fetch i log path of (tags, links, err) \<Rightarrow> (tags, take 1 links, err))"
proof (cases "makeRequest i log path")
  case (Inl e)
  then show ?thesis
    by (simp add: fetch_def MakeRepositoryTagsRequest_def firstLinkOnly_def)
next
  case (Inr res)
  show ?thesis
  proof (cases "StatusCode res = 200")
    case False
    with Inr show ?thesis
      by (simp add: fetch_def MakeRepositoryTagsRequest_def firstLinkOnly_def firstLink_def)
  next
    case True
    with Inr show ?thesis
      by (cases "jsonDecode i (Body res)"; cases "Header res ''Link''")
         (simp_all add: fetch_def MakeRepositoryTagsRequest_def firstLinkOnly_def firstLink_def)
  qed
qed

lemma iteration_firstLinkOnly:
  "iteration (firstLinkOnly i) log path result = iteration i log path result"
proof -
  have u: "urlParse (firstLinkOnly i) = urlParse i" by (simp add: firstLinkOnly_def)
  show ?thesis
    by (simp add: iteration_fetch fetch_firstLinkOnly u split: prod.splits option.splits list.splits)
qed

lemma loop_mono_world:
  assumes "GetRepositoryTags_loop i log path result = Some y"
  shows "\<forall>j. (\<forall>log path result. iteration j log path result = iteration i log path result) \<longrightarrow>
           GetRepositoryTags_loop j log path result = Some y"
proof (rule GetRepositoryTags_loop.raw_induct
    [where P = "\<lambda>i log path result y.
        \<forall>j. (\<forall>log path result. iteration j log path result = iteration i log path result) \<longrightarrow>
           GetRepositoryTags_loop j log path result = Some y",
     OF _ assms])
  fix loop i log path result y
  assume IH: "\<And>i log path result y. loop i log path result = Some y \<Longrightarrow>
      \<forall>j. (\<forall>log path result. iteration j log path result = iteration i log path result) \<longrightarrow>
           GetRepositoryTags_loop j log path result = Some y"
  assume eq: "(case iteration i log path result of
        (Return tags err, log') \<Rightarrow> Some ((tags, err), log')
      | (Again path' result', log') \<Rightarrow> loop i log' path' result') = Some y"
  show "\<forall>j. (\<forall>log path result. iteration j log path result = iteration i log path result) \<longrightarrow>
           GetRepositoryTags_loop j log path result = Some y"
  proof (intro allI impI)
    fix j
    assume same: "\<forall>log path result. iteration j log path result = iteration i log path result"
    obtain s log' where it: "iteration i log path result = (s, log')"
      by (cases "iteration i log path result")
    with same have itj: "iteration j log path result = (s, log')" by simp
    show "GetRepositoryTags_loop j log path result = Some y"
    proof (cases s)
      case (Return tags err)
      with it eq have "y = ((tags, err), log')" by simp
      with itj Return show ?thesis by (simp add: loop_Return)
    next
      case (Again path' result')
      with it eq have "loop i log' path' result' = Some y" by simp
      with IH same have "GetRepositoryTags_loop j log' path' result' = Some y" by blast
      with itj Again show ?thesis by (simp add: loop_Again)
    qed
  qed
qed

lemma loop_cong_world:
  assumes "\<And>log path result. iteration j log path result = iteration i log path result"
  shows "GetRepositoryTags_loop j log path result = GetRepositoryTags_loop i log path result"
proof (cases "GetRepositoryTags_loop i log path result")
  case (Some y)
  with loop_mono_world[OF Some] assms show ?thesis by simp
next
  case None
  show ?thesis
  proof (cases "GetRepositoryTags_loop j log path result")
    case (Some y)
    with loop_mono_world[OF Some] assms have "GetRepositoryTags_loop i log path result = Some y"
      by simp
    with None show ?thesis by simp
  next
    case n: None
    with None show ?thesis by simp
  qed
qed

text \<open>
  C8. Only the first value of a \<^verbatim>\<open>Link\<close> header is read: with every further value
  removed from every response, each pass of the loop does the same, and
  \<open>GetRepositoryTags\<close> returns the same pair after the same requests (or, the same,
  never returns).
\<close>

theorem only_first_link_value_counts:
  "GetRepositoryTags (firstLinkOnly i) path = GetRepositoryTags i path \<and>
   iteration (firstLinkOnly i) log path result = iteration i log path result"
  by (simp add: GetRepositoryTags_def loop_cong_world[of "firstLinkOnly i" i, OF iteration_firstLinkOnly]
      iteration_firstLinkOnly)

theorem only_first_link_value_counts_witness:
  \<open>GetRepositoryTags extraLinks ''/v2/r/tags/list'' =
     Some ((Some [''a'', ''b'', ''c''], None), [''/v2/r/tags/list'', ''/v2/r/tags/list?next=2'']) \<and>
   fetch extraLinks [] ''/v2/r/tags/list'' =
     (Some [''a'', ''b''],
      [''</v2/r/tags/list?next=2>; rel="next"'', ''</v2/r/tags/list?next=9>; rel="next"'', ''junk''], None) \<and>
   fetch (firstLinkOnly extraLinks) [] ''/v2/r/tags/list'' =
     (Some [''a'', ''b''], [''</v2/r/tags/list?next=2>; rel="next"''], None)\<close>
proof -
  have 1: "iteration (firstLinkOnly extraLinks) [] ''/v2/r/tags/list'' None =
      (Again ''/v2/r/tags/list?next=2'' (Some [''a'', ''b'']), [''/v2/r/tags/list''])"
    by (simp add: extraLinks_def firstLinkOnly_def firstLink_def example_defs)
  have 2: "iteration (firstLinkOnly extraLinks) [''/v2/r/tags/list''] ''/v2/r/tags/list?next=2'' (Some [''a'', ''b'']) =
      (Return (Some [''a'', ''b'', ''c'']) None, [''/v2/r/tags/list'', ''/v2/r/tags/list?next=2''])"
    by (simp add: extraLinks_def firstLinkOnly_def firstLink_def example_defs)
  have "GetRepositoryTags (firstLinkOnly extraLinks) ''/v2/r/tags/list'' =
     Some ((Some [''a'', ''b'', ''c''], None), [''/v2/r/tags/list'', ''/v2/r/tags/list?next=2''])"
    by (simp add: GetRepositoryTags_def loop_Again[OF 1] loop_Return[OF 2])
  moreover have \<open>fetch extraLinks [] ''/v2/r/tags/list'' =
     (Some [''a'', ''b''],
      [''</v2/r/tags/list?next=2>; rel="next"'', ''</v2/r/tags/list?next=9>; rel="next"'', ''junk''], None)\<close>
    by (simp add: extraLinks_def example_defs)
  moreover have \<open>fetch (firstLinkOnly extraLinks) [] ''/v2/r/tags/list'' =
     (Some [''a'', ''b''], [''</v2/r/tags/list?next=2>; rel="next"''], None)\<close>
    by (simp add: extraLinks_def firstLinkOnly_def firstLink_def example_defs)
  ultimately show ?thesis
    using only_first_link_value_counts[of extraLinks "''/v2/r/tags/list''"]
    by simp
qed

subsection \<open>Where the loop stops\<close>

text \<open>
  Where the loop does return the nil error: at a page that was fetched without error
  and either carried no continuation header or had nil tags.
\<close>

lemma success_only_without_link_or_tags:
  assumes "GetRepositoryTags i path0 = Some ((r, None), log')"
  shows "\<exists>log path result tags links.
           reaches i path0 log path result \<and> log' = log @ [path] \<and>
           fetch i log path = (tags, links, None) \<and> (tags = None \<or> links = [])"
proof -
  from GetRepositoryTags_returns_at[OF assms] obtain log path result where
    r: "reaches i path0 log path result" and it: "iteration i log path result = (Return r None, log')"
    by (auto simp: returns_at_def)
  from it have l: "log' = log @ [path]" using iteration_log[of i log path result] by simp
  obtain tags links err where f: "fetch i log path = (tags, links, err)"
    by (cases "fetch i log path")
  with it have "tags = None \<and> err = None \<or> tags \<noteq> None \<and> links = []"
    by (auto simp: iteration_fetch split: option.splits list.splits sum.splits)
  moreover have "err = None" if "tags \<noteq> None"
    using that f fetch_error_nil[of i log path tags links] by (cases err) auto
  ultimately have "err = None \<and> (tags = None \<or> links = [])" by auto
  with r l f show ?thesis by blast
qed

text \<open>
  C2, at a page with a null \<^verbatim>\<open>Tags\<close> field. The repository \<open>nullSecondPage\<close> has
  three pages. The second is fetched with status 200, its body decodes without error,
  and its continuation header matches the pattern and parses; \<open>GetRepositoryTags\<close>
  returns there, with the nil error and the nil slice, and the third page is never
  requested.
\<close>

theorem stops_early_on_nil_tags:
  \<open>GetRepositoryTags nullSecondPage ''/v2/r/tags/list'' =
     Some ((None, None), [''/v2/r/tags/list'', ''/v2/r/tags/list?next=2'']) \<and>
   fetch nullSecondPage [''/v2/r/tags/list''] ''/v2/r/tags/list?next=2'' =
     (None, [''</v2/r/tags/list?next=3>; rel="next"''], None) \<and>
   nextLinkRegexp ''</v2/r/tags/list?next=3>; rel="next"'' = Some ''/v2/r/tags/list?next=3'' \<and>
   urlParse nullSecondPage ''/v2/r/tags/list?next=3'' =
     Inr \<lparr>Path = ''/v2/r/tags/list'', RawQuery = ''next=3''\<rparr>\<close>
proof -
  have 2: "iteration nullSecondPage [''/v2/r/tags/list''] ''/v2/r/tags/list?next=2'' (Some [''a'', ''b'']) =
      (Return None None, [''/v2/r/tags/list'', ''/v2/r/tags/list?next=2''])"
    by (simp add: nullSecondPage_def example_defs)
  have "GetRepositoryTags nullSecondPage ''/v2/r/tags/list'' =
     Some ((None, None), [''/v2/r/tags/list'', ''/v2/r/tags/list?next=2''])"
    by (simp add: GetRepositoryTags_def loop_Again[OF nullSecondPage_first] loop_Return[OF 2])
  then show ?thesis
    by (simp add: nullSecondPage_def example_defs)
qed

text \<open>
  C5, at a page with no \<^verbatim>\<open>Tags\<close> field. The page of \<open>nullMalformed\<close> is fetched with
  status 200 and its body decodes without error; the first value of its continuation
  header does not match the pattern; \<open>GetRepositoryTags\<close> returns the nil slice with
  the nil error, not the error of a malformed header.
\<close>

theorem malformed_link_ignored_on_nil_tags:
  \<open>GetRepositoryTags nullMalformed ''/v2/r/tags/list'' = Some ((None, None), [''/v2/r/tags/list'']) \<and>
   fetch nullMalformed [] ''/v2/r/tags/list'' = (None, [''malformed-value''], None) \<and>
   nextLinkRegexp ''malformed-value'' = None\<close>
proof -
  have 1: "iteration nullMalformed [] ''/v2/r/tags/list'' None = (Return None None, [''/v2/r/tags/list''])"
    by (simp add: nullMalformed_def example_defs)
  have "GetRepositoryTags nullMalformed ''/v2/r/tags/list'' = Some ((None, None), [''/v2/r/tags/list''])"
    by (simp add: GetRepositoryTags_def loop_Return[OF 1])
  then show ?thesis
    by (simp add: nullMalformed_def example_defs)
qed

end
